theory Spec2Isabelle
  imports Main "HOL-Library.Char_ord" "HOL-Library.List_Lexorder" "HOL-Library.Log_Nat"
begin

section \<open>Python values\<close>

text \<open>
  Exceptions are values: a function of the source that can raise returns
  \<open>py_error + 'a\<close>, with \<open>Inl\<close> for the exception. Where the source has already changed
  the database when it raises, the model returns the database reached together with
  the error.
\<close>

datatype py_error = ValueError | TypeError | AttributeError | ZeroDivisionError
  | OverflowError | NotImplementedError | DoesNotExist

text \<open>
  \<open>str(n)\<close> of a Python integer: the decimal digits, most significant first, after a
  minus sign when \<open>n\<close> is negative.
\<close>

fun digits :: "nat \<Rightarrow> nat list" where
  "digits n = (if n < 10 then [n] else digits (n div 10) @ [n mod 10])"

declare digits.simps [simp del]

definition digit_char :: "nat \<Rightarrow> char" where
  "digit_char d = char_of (48 + d)"

definition py_str :: "int \<Rightarrow> string" where
  "py_str n = (if n < 0 then CHR ''-'' # map digit_char (digits (nat (- n)))
               else map digit_char (digits (nat n)))"

text \<open>
  \<open>int(c)\<close> on one character of \<open>str(n)\<close>: a digit gives its value, the minus sign
  raises \<open>ValueError\<close>.
\<close>

definition py_int :: "char \<Rightarrow> py_error + int" where
  "py_int c = (if CHR ''0'' \<le> c \<and> c \<le> CHR ''9'' then Inr (int (of_char c) - 48)
               else Inl ValueError)"

text \<open>
  \<open>chr(i)\<close> raises \<open>ValueError\<close> on a negative argument. A \<open>char\<close> holds the code
  points below 256 only; \<open>enc\<close> never asks for a larger one (its arguments are at
  most 122), so the model gives none.
\<close>

definition py_chr :: "int \<Rightarrow> py_error + char" where
  "py_chr i = (if 0 \<le> i \<and> i < 256 then Inr (char_of (nat i)) else Inl ValueError)"

section \<open>Object keys (hc/lib/s3.py)\<close>

definition ASCII_J :: int where "ASCII_J = 106"

definition ASCII_Z :: int where "ASCII_Z = 122"

text \<open>The generator \<open>chr(ASCII_J - int(c)) for c in s\<close>, joined.\<close>

fun inverted :: "string \<Rightarrow> py_error + string" where
  "inverted [] = Inr []"
| "inverted (c # cs) =
     (case py_int c of Inl e \<Rightarrow> Inl e
      | Inr d \<Rightarrow>
        (case py_chr (ASCII_J - d) of Inl e \<Rightarrow> Inl e
         | Inr x \<Rightarrow>
           (case inverted cs of Inl e \<Rightarrow> Inl e | Inr xs \<Rightarrow> Inr (x # xs))))"

definition enc :: "int \<Rightarrow> py_error + string" where
  "enc n =
     (let s = py_str n in
      case py_chr (ASCII_Z - int (length s) + 1) of Inl e \<Rightarrow> Inl e
      | Inr len_inverted \<Rightarrow>
        (case inverted s of Inl e \<Rightarrow> Inl e
         | Inr invd \<Rightarrow> Inr (len_inverted # invd @ ''-'' @ s)))"

text \<open>
  Modelled from the spec: the object store itself (minio's \<open>list_objects\<close> and
  \<open>remove_objects\<close>) is an external collaborator. Its listing is the spec's
  \<open>listKeysAfter\<close>: the stored keys that start with the prefix and sort strictly
  after \<open>start_after\<close>, in lexicographic order of their code points. Its batch deletion
  is taken to succeed for every listed key.
\<close>

definition startswith :: "string \<Rightarrow> string \<Rightarrow> bool" where
  "startswith k prefix = (take (length prefix) k = prefix)"

definition list_objects :: "string list \<Rightarrow> string \<Rightarrow> string \<Rightarrow> string list" where
  "list_objects keys prefix start_after =
     filter (\<lambda>k. startswith k prefix \<and> start_after < k) (sort keys)"

type_synonym archive = "(string \<times> string) list"

definition put_object :: "string \<Rightarrow> int \<Rightarrow> string \<Rightarrow> archive \<Rightarrow> py_error + archive" where
  "put_object code n data a =
     (case enc n of Inl e \<Rightarrow> Inl e
      | Inr k \<Rightarrow>
        (let key = code @ ''/'' @ k
         in Inr ((key, data) # filter (\<lambda>(k', d). k' \<noteq> key) a)))"

text \<open>\<open>_remove_objects\<close>: the body of the removal thread.\<close>

definition remove_objects_body :: "string \<Rightarrow> int \<Rightarrow> archive \<Rightarrow> py_error + archive" where
  "remove_objects_body code upto_n a =
     (let prefix = code @ ''/'' in
      case enc (upto_n + 1) of Inl e \<Rightarrow> Inl e
      | Inr k \<Rightarrow>
        (let start_after = prefix @ k;
             delete_objs = list_objects (map fst a) prefix start_after
         in Inr (filter (\<lambda>(k', d). k' \<notin> set delete_objs) a)))"

text \<open>
  \<open>remove_objects\<close> starts \<open>_remove_objects\<close> on a thread of its own. The model gives
  the archive once that thread has ended; an exception in the thread ends the thread
  only, and the archive stays as it was.
\<close>

definition remove_objects :: "string \<Rightarrow> int \<Rightarrow> archive \<Rightarrow> archive" where
  "remove_objects check_code upto_n a =
     (case remove_objects_body check_code upto_n a of Inl e \<Rightarrow> a | Inr a' \<Rightarrow> a')"

section \<open>Data model (hc/api/models.py)\<close>

text \<open>
  A \<open>datetime\<close> is the number of microseconds since the epoch (UTC), a \<open>timedelta\<close> a
  number of microseconds; sums and differences are exact (the bounds of Python's
  \<open>datetime\<close>, years 1 to 9999, are not modelled).
\<close>

type_synonym datetime = int

type_synonym timedelta = int

definition NEVER :: datetime where
  "NEVER = 32503680000000000"

datatype status = Up | Down | New | Paused

datatype check_kind = Simple | Cron

datatype action = Start | Ign | Fail | Success

text \<open>What \<open>get_status\<close> reports: a stored status, or \<open>started\<close>, or \<open>grace\<close>.\<close>

datatype reported = Stored status | Started | Grace

record check =
  code :: string
  kind :: check_kind
  timeout :: timedelta
  grace :: timedelta
  schedule :: string
  tz :: string
  manual_resume :: bool
  n_pings :: int
  last_ping :: "datetime option"
  last_start :: "datetime option"
  last_duration :: "timedelta option"
  has_confirmation_link :: bool
  alert_after :: "datetime option"
  status :: status

record ping =
  p_id :: nat
  p_n :: "int option"
  p_owner :: string
  p_created :: datetime
  p_kind :: "action option"
  p_scheme :: string
  p_remote_addr :: string
  p_method :: string
  p_ua :: string
  p_body_raw :: "string option"
  p_object_size :: "int option"
  p_exitstatus :: "int option"

record channel =
  ch_code :: string
  ch_kind :: string
  ch_value :: string
  ch_disabled :: "bool option"
  ch_last_notify :: "datetime option"
  ch_last_error :: string
  ch_checks :: "string list"

record notification =
  nt_id :: nat
  nt_owner :: "string option"
  nt_check_status :: status
  nt_channel :: string
  nt_created :: datetime
  nt_error :: string

record flip =
  f_owner :: string
  f_created :: datetime
  f_processed :: "datetime option"
  f_old_status :: status
  f_new_status :: status

text \<open>
  The database: one table per model, rows in the order of their insertion, and the
  sequence of statements sent to it so far.
\<close>

datatype db_op =
    Insert_flip flip
  | Update_check check
  | Insert_ping ping
  | Delete_pings string int
  | Delete_notifications string datetime
  | Insert_notification notification
  | Update_notification nat string
  | Update_channel string "datetime option" string "bool option"

record db =
  checks :: "string \<Rightarrow> check option"
  flips :: "flip list"
  pings :: "ping list"
  ping_seq :: nat
  notifications :: "notification list"
  notification_seq :: nat
  channels :: "channel list"
  archive :: archive
  statements :: "db_op list"

record settings =
  S3_BUCKET :: "string option"

text \<open>\<open>if settings.S3_BUCKET:\<close> holds for a bucket name that is neither \<open>None\<close> nor empty.\<close>

definition s3_configured :: "settings \<Rightarrow> bool" where
  "s3_configured st = (case S3_BUCKET st of None \<Rightarrow> False | Some b \<Rightarrow> b \<noteq> [])"

section \<open>Status and deadline (Check)\<close>

text \<open>
  \<open>cronsim\<close> stands for \<open>next(CronSim(schedule, last_ping.astimezone(ZoneInfo(tz))))\<close>,
  code of the cronsim and zoneinfo libraries: given the schedule, the time zone and the
  last ping it gives the next scheduled instant, or raises.
\<close>

type_synonym cronsim = "string \<Rightarrow> string \<Rightarrow> datetime \<Rightarrow> py_error + datetime"

definition get_grace_start :: "cronsim \<Rightarrow> check \<Rightarrow> bool \<Rightarrow> py_error + datetime option" where
  "get_grace_start cron self with_started =
     (case (if kind self = Simple \<and> status self = Up then
              (case last_ping self of None \<Rightarrow> Inl TypeError
               | Some lp \<Rightarrow> Inr (lp + timeout self))
            else if kind self = Cron \<and> status self = Up then
              (case last_ping self of None \<Rightarrow> Inl AttributeError
               | Some lp \<Rightarrow> cron (schedule self) (tz self) lp)
            else Inr NEVER) of
        Inl e \<Rightarrow> Inl e
      | Inr result0 \<Rightarrow>
        (let result =
               (case last_start self of
                  Some ls \<Rightarrow> if with_started \<and> status self \<noteq> Down then min result0 ls
                             else result0
                | None \<Rightarrow> result0)
         in if result \<noteq> NEVER then Inr (Some result) else Inr None))"

definition going_down_after :: "cronsim \<Rightarrow> check \<Rightarrow> py_error + datetime option" where
  "going_down_after cron self =
     (case get_grace_start cron self True of
        Inl e \<Rightarrow> Inl e
      | Inr None \<Rightarrow> Inr None
      | Inr (Some grace_start) \<Rightarrow> Inr (Some (grace_start + grace self)))"

text \<open>
  \<open>get_status\<close>, with the clock reading \<open>frozen_now\<close> as an argument. When
  \<open>get_grace_start\<close> returns \<open>None\<close>, \<open>grace_start + self.grace\<close> raises \<open>TypeError\<close>.
\<close>

definition get_status :: "cronsim \<Rightarrow> datetime \<Rightarrow> check \<Rightarrow> bool \<Rightarrow> py_error + reported" where
  "get_status cron frozen_now self with_started =
     (case (case last_start self of
              Some ls \<Rightarrow>
                if frozen_now \<ge> ls + grace self then Some (Stored Down)
                else if with_started then Some Started
                else None
            | None \<Rightarrow> None) of
        Some r \<Rightarrow> Inr r
      | None \<Rightarrow>
        if status self \<in> {New, Paused, Down} then Inr (Stored (status self))
        else
          (case get_grace_start cron self with_started of
             Inl e \<Rightarrow> Inl e
           | Inr None \<Rightarrow> Inl TypeError
           | Inr (Some grace_start) \<Rightarrow>
             (let grace_end = grace_start + grace self
              in if frozen_now \<ge> grace_end then Inr (Stored Down)
                 else if frozen_now \<ge> grace_start then Inr Grace
                 else Inr (Stored Up))))"

section \<open>Ping ingestion and pruning (Check)\<close>

text \<open>
  \<open>"confirm" in body.decode(errors="replace").lower()\<close>, on the bytes of the body:
  the letters of \<open>confirm\<close> are ASCII, so the model lowers the ASCII capitals and looks
  for the word.
\<close>

definition lower_char :: "char \<Rightarrow> char" where
  "lower_char c = (if CHR ''A'' \<le> c \<and> c \<le> CHR ''Z'' then char_of (of_char c + (32::nat)) else c)"

fun contains :: "string \<Rightarrow> string \<Rightarrow> bool" where
  "contains pat [] = (pat = [])"
| "contains pat (c # cs) = (take (length pat) (c # cs) = pat \<or> contains pat cs)"

text \<open>\<open>flip.save()\<close> and \<open>ping.save()\<close> insert a row; the ping takes the next id.\<close>

definition flip_save :: "flip \<Rightarrow> db \<Rightarrow> db" where
  "flip_save f d = d\<lparr>flips := flips d @ [f], statements := statements d @ [Insert_flip f]\<rparr>"

definition ping_save :: "ping \<Rightarrow> db \<Rightarrow> db" where
  "ping_save p d =
     d\<lparr>pings := pings d @ [p], ping_seq := Suc (ping_seq d),
       statements := statements d @ [Insert_ping p]\<rparr>"

text \<open>
  \<open>self.n_pings = models.F("n_pings") + 1; self.save(); self.refresh_from_db()\<close>:
  the row takes the fields of \<open>self\<close>, except that its counter is the stored counter
  plus one, and \<open>self\<close> is read back from the row. Saving a check that has no row
  would insert the \<open>F\<close> expression, which Django refuses with \<open>ValueError\<close>.
\<close>

definition check_save :: "check \<Rightarrow> db \<Rightarrow> py_error + check \<times> db" where
  "check_save self d =
     (case checks d (code self) of
        None \<Rightarrow> Inl ValueError
      | Some row \<Rightarrow>
        (let row' = self\<lparr>n_pings := n_pings row + 1\<rparr>
         in Inr (row', d\<lparr>checks := (checks d)(code self := Some row'),
                        statements := statements d @ [Update_check row']\<rparr>)))"

text \<open>\<open>self.ping_set\<close> and \<open>self.notification_set\<close>: the rows owned by the check.\<close>

definition ping_set :: "check \<Rightarrow> db \<Rightarrow> ping list" where
  "ping_set self d = filter (\<lambda>p. p_owner p = code self) (pings d)"

text \<open>\<open>filter(n__lte=threshold)\<close>: a row whose \<open>n\<close> is null does not match.\<close>

definition n_lte :: "ping \<Rightarrow> int \<Rightarrow> bool" where
  "n_lte p threshold = (case p_n p of None \<Rightarrow> False | Some n \<Rightarrow> n \<le> threshold)"

text \<open>\<open>earliest("id")\<close>: the row with the least id, \<open>DoesNotExist\<close> when there is none.\<close>

fun earliest :: "ping list \<Rightarrow> py_error + ping" where
  "earliest [] = Inl DoesNotExist"
| "earliest (p # ps) =
     (case earliest ps of
        Inl e \<Rightarrow> Inr p
      | Inr q \<Rightarrow> if p_id p \<le> p_id q then Inr p else Inr q)"

text \<open>
  \<open>prune\<close>; \<open>ping_log_limit\<close> is \<open>self.project.owner_profile.ping_log_limit\<close>, a field
  of the account the check belongs to.
\<close>

definition prune :: "settings \<Rightarrow> int \<Rightarrow> check \<Rightarrow> db \<Rightarrow> db" where
  "prune st ping_log_limit self d =
     (let threshold = n_pings self - ping_log_limit;
          d1 = (if s3_configured st
                then d\<lparr>archive := remove_objects (code self) threshold (archive d)\<rparr>
                else d);
          d2 = d1\<lparr>pings := filter (\<lambda>p. \<not> (p_owner p = code self \<and> n_lte p threshold)) (pings d1),
                  statements := statements d1 @ [Delete_pings (code self) threshold]\<rparr>
      in case earliest (ping_set self d2) of
           Inl e \<Rightarrow> d2
         | Inr p \<Rightarrow>
           d2\<lparr>notifications :=
                 filter (\<lambda>x. \<not> (nt_owner x = Some (code self) \<and> nt_created x < p_created p))
                   (notifications d2),
               statements := statements d2 @ [Delete_notifications (code self) (p_created p)]\<rparr>)"

text \<open>
  \<open>ping\<close>, with the clock reading \<open>frozen_now\<close> as an argument, in the blocks of the
  source. First the action: a paused check with \<open>manual_resume\<close> ignores the ping.
\<close>

definition effective_action :: "check \<Rightarrow> action \<Rightarrow> action" where
  "effective_action self action =
     (if status self = Paused \<and> manual_resume self then Ign else action)"

text \<open>
  Then the fields of \<open>self\<close> are updated by the action; on a change of status the flip
  is saved (\<open>flip.save()\<close>) and \<open>self.status\<close> is assigned in memory.
\<close>

definition ping_update :: "datetime \<Rightarrow> check \<Rightarrow> db \<Rightarrow> action \<Rightarrow> check \<times> db" where
  "ping_update frozen_now self d action =
     (if action = Start then (self\<lparr>last_start := Some frozen_now\<rparr>, d)
      else if action = Ign then (self, d)
      else
        (let s1 = self\<lparr>last_ping := Some frozen_now\<rparr>;
             s2 = (case last_start s1 of
                     Some ls \<Rightarrow> s1\<lparr>last_duration := Some (frozen_now - ls),
                                     last_start := None\<rparr>
                   | None \<Rightarrow> s1\<lparr>last_duration := None\<rparr>);
             new_status = (if action = Fail then Down else Up)
         in if status s2 \<noteq> new_status
            then (s2\<lparr>status := new_status\<rparr>,
                  flip_save \<lparr>f_owner = code self, f_created = frozen_now,
                             f_processed = None, f_old_status = status s2,
                             f_new_status = new_status\<rparr> d)
            else (s2, d)))"

text \<open>
  The \<open>Ping\<close> row is built after the check is saved; a body of more than 100 bytes
  goes to the object store when one is configured. The write to the object store in
  \<open>put_object\<close> is taken to succeed (its retry loop ends at the first success).
\<close>

definition ping_row ::
  "settings \<Rightarrow> datetime \<Rightarrow> check \<Rightarrow> db \<Rightarrow>
   string \<Rightarrow> string \<Rightarrow> string \<Rightarrow> string \<Rightarrow> string \<Rightarrow> action \<Rightarrow> int option \<Rightarrow>
   py_error + ping \<times> db" where
  "ping_row st frozen_now self d remote_addr scheme method ua body action exitstatus =
     (let p0 = \<lparr>p_id = ping_seq d, p_n = Some (n_pings self),
                p_owner = code self, p_created = frozen_now,
                p_kind = (if action \<in> {Start, Fail, Ign} then Some action else None),
                p_scheme = scheme, p_remote_addr = remote_addr, p_method = method,
                p_ua = take 200 ua, p_body_raw = None, p_object_size = None,
                p_exitstatus = exitstatus\<rparr>
      in if length body > 100 \<and> s3_configured st
         then (case put_object (code self) (n_pings self) body (archive d) of
                 Inl e \<Rightarrow> Inl e
               | Inr a \<Rightarrow> Inr (p0\<lparr>p_object_size := Some (int (length body))\<rparr>,
                                d\<lparr>archive := a\<rparr>))
         else Inr (p0\<lparr>p_body_raw := Some body\<rparr>, d))"

text \<open>
  The whole of \<open>ping\<close>. The result is the refreshed check, or the exception raised,
  and in both cases the database reached.
\<close>

definition ping ::
  "settings \<Rightarrow> int \<Rightarrow> cronsim \<Rightarrow> datetime \<Rightarrow> check \<Rightarrow> db \<Rightarrow>
   string \<Rightarrow> string \<Rightarrow> string \<Rightarrow> string \<Rightarrow> string \<Rightarrow> action \<Rightarrow> int option \<Rightarrow>
   (py_error + check) \<times> db" where
  "ping st ping_log_limit cron frozen_now self d remote_addr scheme method ua body action0 exitstatus =
     (let action = effective_action self action0;
          (self1, d1) = ping_update frozen_now self d action
      in case going_down_after cron self1 of
           Inl e \<Rightarrow> (Inl e, d1)
         | Inr aa \<Rightarrow>
           (case check_save
                   (self1\<lparr>alert_after := aa,
                           has_confirmation_link := contains ''confirm'' (map lower_char body)\<rparr>)
                   d1 of
              Inl e \<Rightarrow> (Inl e, d1)
            | Inr (self3, d2) \<Rightarrow>
              (case ping_row st frozen_now self3 d2 remote_addr scheme method ua body
                      action exitstatus of
                 Inl e \<Rightarrow> (Inl e, d2)
               | Inr (p, d3) \<Rightarrow>
                 (let d4 = ping_save p d3
                  in (Inr self3,
                      if n_pings self3 mod 100 = 0 then prune st ping_log_limit self3 d4
                      else d4)))))"

section \<open>Alert dispatch (Channel, Flip)\<close>

text \<open>
  The transports (hc/api/transports.py) are the capability the channels send through.
  The property \<open>Channel.transport\<close> picks the transport class by the channel's kind and
  raises \<open>NotImplementedError\<close> for a kind it does not know.
\<close>

datatype transport = Email | Webhook | Slack | HipChat | PagerDuty | PagerTree | PagerTeam
  | VictorOps | Pushbullet | Pushover | Opsgenie | Discord | Telegram | Sms | Trello | Matrix
  | WhatsApp | Apprise | MsTeams | Shell | Zulip | Spike | Call | LineNotify | Signal

definition transport :: "channel \<Rightarrow> py_error + transport" where
  "transport self =
     (let k = ch_kind self in
      if k = ''email'' then Inr Email
      else if k = ''webhook'' then Inr Webhook
      else if k \<in> {''slack'', ''mattermost''} then Inr Slack
      else if k = ''hipchat'' then Inr HipChat
      else if k = ''pd'' then Inr PagerDuty
      else if k = ''pagertree'' then Inr PagerTree
      else if k = ''pagerteam'' then Inr PagerTeam
      else if k = ''victorops'' then Inr VictorOps
      else if k = ''pushbullet'' then Inr Pushbullet
      else if k = ''po'' then Inr Pushover
      else if k = ''opsgenie'' then Inr Opsgenie
      else if k = ''discord'' then Inr Discord
      else if k = ''telegram'' then Inr Telegram
      else if k = ''sms'' then Inr Sms
      else if k = ''trello'' then Inr Trello
      else if k = ''matrix'' then Inr Matrix
      else if k = ''whatsapp'' then Inr WhatsApp
      else if k = ''apprise'' then Inr Apprise
      else if k = ''msteams'' then Inr MsTeams
      else if k = ''shell'' then Inr Shell
      else if k = ''zulip'' then Inr Zulip
      else if k = ''spike'' then Inr Spike
      else if k = ''call'' then Inr Call
      else if k = ''linenotify'' then Inr LineNotify
      else if k = ''signal'' then Inr Signal
      else Inl NotImplementedError)"

text \<open>
  A \<open>TransportError\<close> carries a message and the flag \<open>permanent\<close>. What a transport
  answers is not code of this module: \<open>is_noop\<close> and \<open>t_notify\<close> are given, the latter
  returning \<open>None\<close> when the transport returns and the error when it raises
  \<open>TransportError\<close>.
\<close>

record transport_error =
  message :: string
  permanent :: bool

record transports =
  is_noop :: "transport \<Rightarrow> channel \<Rightarrow> check \<Rightarrow> bool"
  t_notify :: "transport \<Rightarrow> channel \<Rightarrow> check \<Rightarrow> notification \<Rightarrow> transport_error option"

text \<open>
  \<open>Channel.notify\<close>, with the clock reading as an argument. \<open>n.save()\<close> inserts the
  notification; the two \<open>update\<close> calls change the named fields only, of the rows with
  the given id.
\<close>

definition notify ::
  "transports \<Rightarrow> datetime \<Rightarrow> channel \<Rightarrow> check \<Rightarrow> bool \<Rightarrow> db \<Rightarrow> (py_error + string) \<times> db" where
  "notify tr now self chk is_test d =
     (case transport self of
        Inl e \<Rightarrow> (Inl e, d)
      | Inr t \<Rightarrow>
        if is_noop tr t self chk then (Inr ''no-op'', d)
        else
          (let n = \<lparr>nt_id = notification_seq d,
                    nt_owner = (if is_test then None else Some (code chk)),
                    nt_check_status = status chk, nt_channel = ch_code self,
                    nt_created = now, nt_error = ''Sending''\<rparr>;
               d1 = d\<lparr>notifications := notifications d @ [n],
                       notification_seq := Suc (notification_seq d),
                       statements := statements d @ [Insert_notification n]\<rparr>;
               (error, disabled) =
                 (case t_notify tr t self chk n of
                    None \<Rightarrow> ([], ch_disabled self)
                  | Some e \<Rightarrow>
                    (message e, if permanent e then Some True else ch_disabled self));
               d2 = d1\<lparr>notifications :=
                         map (\<lambda>x. if nt_id x = nt_id n then x\<lparr>nt_error := error\<rparr> else x)
                           (notifications d1),
                       statements := statements d1 @ [Update_notification (nt_id n) error]\<rparr>;
               d3 = d2\<lparr>channels :=
                         map (\<lambda>c. if ch_code c = ch_code self
                                  then c\<lparr>ch_last_notify := Some now, ch_last_error := error,
                                         ch_disabled := disabled\<rparr>
                                  else c)
                           (channels d2),
                       statements :=
                         statements d2 @ [Update_channel (ch_code self) (Some now) error disabled]\<rparr>
           in (Inr error, d3)))"

text \<open>
  The loop of \<open>send_alerts\<close> over the channels, run to its end; the triples it yields
  are given without the measured send time. An exception of \<open>notify\<close> ends the loop.
\<close>

fun notify_all ::
  "transports \<Rightarrow> datetime \<Rightarrow> check \<Rightarrow> channel list \<Rightarrow> db \<Rightarrow>
   (py_error + (channel \<times> string) list) \<times> db" where
  "notify_all tr now owner [] d = (Inr [], d)"
| "notify_all tr now owner (ch # chs) d =
     (case notify tr now ch owner False d of
        (Inl e, d1) \<Rightarrow> (Inl e, d1)
      | (Inr error, d1) \<Rightarrow>
        (case notify_all tr now owner chs d1 of
           (Inl e, d2) \<Rightarrow> (Inl e, d2)
         | (Inr rest, d2) \<Rightarrow>
           (Inr (if error = ''no-op'' then rest else (ch, error) # rest), d2)))"

text \<open>
  \<open>Flip.send_alerts\<close>. Its second guard raises
  \<open>NotImplementedError("Unexpected status: %s" % self.status)\<close>; a \<open>Flip\<close> has no
  attribute \<open>status\<close>, so building the message raises \<open>AttributeError\<close>.
  \<open>self.owner.channel_set.exclude(disabled=True)\<close> is the channels assigned to the
  owner whose \<open>disabled\<close> is not true (null counts as not disabled).
\<close>

definition send_alerts ::
  "transports \<Rightarrow> datetime \<Rightarrow> flip \<Rightarrow> db \<Rightarrow> (py_error + (channel \<times> string) list) \<times> db" where
  "send_alerts tr now self d =
     (if f_new_status self = Up \<and> f_old_status self \<in> {New, Paused} then (Inr [], d)
      else if f_new_status self \<notin> {Up, Down} then (Inl AttributeError, d)
      else
        (case checks d (f_owner self) of
           None \<Rightarrow> (Inl DoesNotExist, d)
         | Some owner \<Rightarrow>
           notify_all tr now owner
             (filter (\<lambda>c. f_owner self \<in> set (ch_checks c) \<and> ch_disabled c \<noteq> Some True)
                (channels d)) d))"

section \<open>Floating point\<close>

text \<open>
  Python's \<open>float\<close> is IEEE 754 binary64, and \<open>+\<close>, \<open>-\<close>, \<open>/\<close> and the conversion
  from \<open>int\<close> round the exact result to the nearest float, ties to even. A finite float
  is modelled by the rational number it denotes, and \<open>round64\<close> rounds a rational to
  binary64: 53 significant bits, with the quantum \<open>2 ^ -1074\<close> of the subnormal range
  as the finest step. Infinities and NaN are not modelled: \<open>py_float\<close> raises
  \<open>OverflowError\<close> where Python does, and the other operations of \<open>authorize\<close> stay
  finite on finite balances.
\<close>

definition pow2 :: "int \<Rightarrow> rat" where
  "pow2 e = (if 0 \<le> e then 2 ^ nat e else 1 / 2 ^ nat (- e))"

definition round_half_even :: "rat \<Rightarrow> int" where
  "round_half_even x =
     (let f = \<lfloor>x\<rfloor>; r = x - of_int f
      in if r < 1 / 2 then f else if 1 / 2 < r then f + 1
         else if even f then f else f + 1)"

text \<open>\<open>ilog2 x\<close> is the exponent \<open>e\<close> with \<open>2 ^ e \<le> x < 2 ^ (e + 1)\<close>, for positive \<open>x\<close>.\<close>

definition ilog2 :: "rat \<Rightarrow> int" where
  "ilog2 x =
     (let (a, b) = quotient_of x; d = bitlen a - bitlen b
      in if pow2 d \<le> x then d else d - 1)"

definition round64 :: "rat \<Rightarrow> rat" where
  "round64 x =
     (if x = 0 then 0
      else (let q = pow2 (max (ilog2 \<bar>x\<bar> - 52) (- 1074))
            in of_int (round_half_even (x / q)) * q))"

definition py_float :: "int \<Rightarrow> py_error + rat" where
  "py_float i =
     (let r = round64 (of_int i) in if \<bar>r\<bar> \<ge> 2 ^ 1024 then Inl OverflowError else Inr r)"

definition fl_add :: "rat \<Rightarrow> rat \<Rightarrow> rat" where
  "fl_add x y = round64 (x + y)"

definition fl_sub :: "rat \<Rightarrow> rat \<Rightarrow> rat" where
  "fl_sub x y = round64 (x - y)"

definition fl_div :: "rat \<Rightarrow> rat \<Rightarrow> rat" where
  "fl_div x y = round64 (x / y)"

text \<open>\<open>timedelta.total_seconds()\<close>: the microseconds divided by \<open>10 ** 6\<close>, rounded once.\<close>

definition total_seconds :: "timedelta \<Rightarrow> rat" where
  "total_seconds us = round64 (of_int us / 10 ^ 6)"

section \<open>Rate limiting (TokenBucket)\<close>

record token_bucket =
  tokens :: rat
  updated :: datetime

type_synonym bucket_table = "string \<Rightarrow> token_bucket option"

text \<open>
  \<open>TokenBucket.objects.get_or_create(value=value)\<close>: the row of the key and \<open>False\<close>,
  or a new row with the defaults (1.0 token, the current time) and \<open>True\<close>.
\<close>

definition get_or_create ::
  "bucket_table \<Rightarrow> datetime \<Rightarrow> string \<Rightarrow> (token_bucket \<times> bool) \<times> bucket_table" where
  "get_or_create tb now v =
     (case tb v of
        Some obj \<Rightarrow> ((obj, False), tb)
      | None \<Rightarrow>
        (let obj = \<lparr>tokens = 1, updated = now\<rparr> in ((obj, True), tb(v := Some obj))))"

text \<open>
  The top-up \<open>min(1.0, obj.tokens + delta_secs / refill_time_secs)\<close>, where \<open>r\<close> is
  \<open>refill_time_secs\<close> as a float.
\<close>

definition topped_up :: "token_bucket \<Rightarrow> datetime \<Rightarrow> rat \<Rightarrow> rat" where
  "topped_up obj frozen_now r =
     (let delta_secs = total_seconds (frozen_now - updated obj)
      in min 1 (fl_add (tokens obj) (fl_div delta_secs r)))"

text \<open>
  \<open>obj.tokens\<close> after the top-up and the debit of \<open>authorize\<close>: a row that was just
  created is not topped up. Dividing by a zero \<open>refill_time_secs\<close> or \<open>capacity\<close> raises
  \<open>ZeroDivisionError\<close>.
\<close>

definition debited_tokens ::
  "token_bucket \<Rightarrow> bool \<Rightarrow> datetime \<Rightarrow> int \<Rightarrow> int \<Rightarrow> py_error + rat" where
  "debited_tokens obj created frozen_now capacity refill_time_secs =
     (case (if \<not> created then
              (case py_float refill_time_secs of
                 Inl e \<Rightarrow> Inl e
               | Inr r \<Rightarrow>
                 if r = 0 then Inl ZeroDivisionError
                 else Inr (topped_up obj frozen_now r))
            else Inr (tokens obj)) of
        Inl e \<Rightarrow> Inl e
      | Inr topped \<Rightarrow>
        (case py_float capacity of
           Inl e \<Rightarrow> Inl e
         | Inr c \<Rightarrow>
           if c = 0 then Inl ZeroDivisionError
           else Inr (fl_sub topped (fl_div 1 c))))"

text \<open>
  \<open>TokenBucket.authorize\<close>, with the clock reading \<open>frozen_now\<close> as an argument. The
  result is the value returned or the exception raised, and the table: \<open>obj.save()\<close>
  is the only write after \<open>get_or_create\<close>.
\<close>

definition authorize ::
  "bucket_table \<Rightarrow> datetime \<Rightarrow> string \<Rightarrow> int \<Rightarrow> int \<Rightarrow> (py_error + bool) \<times> bucket_table" where
  "authorize tb frozen_now v capacity refill_time_secs =
     (let ((obj, created), tb1) = get_or_create tb frozen_now v
      in case debited_tokens obj created frozen_now capacity refill_time_secs of
           Inl e \<Rightarrow> (Inl e, tb1)
         | Inr t \<Rightarrow>
           if t < 0 then (Inr False, tb1)
           else (Inr True, tb1(v := Some \<lparr>tokens = t, updated = frozen_now\<rparr>)))"

section \<open>Example data\<close>

text \<open>A check with its rows, a channel and a transport that fails, for the concrete instances below.\<close>

definition example_check :: check where
  "example_check =
     \<lparr>code = ''c1'', kind = Simple, timeout = 60000000, grace = 30000000,
      schedule = ''* * * * *'', tz = ''UTC'', manual_resume = False, n_pings = 99,
      last_ping = Some 0, last_start = None, last_duration = None,
      has_confirmation_link = False, alert_after = Some 90000000, status = Up\<rparr>"

definition example_cron :: cronsim where
  "example_cron = (\<lambda>s z t. Inr (t + 60000000))"

definition example_ping :: "nat \<Rightarrow> int \<Rightarrow> datetime \<Rightarrow> ping" where
  "example_ping i n t =
     \<lparr>p_id = i, p_n = Some n, p_owner = ''c1'', p_created = t, p_kind = None,
      p_scheme = ''http'', p_remote_addr = ''10.0.0.1'', p_method = ''GET'', p_ua = ''curl'',
      p_body_raw = Some [], p_object_size = None, p_exitstatus = None\<rparr>"

definition example_notification :: "nat \<Rightarrow> datetime \<Rightarrow> notification" where
  "example_notification i t =
     \<lparr>nt_id = i, nt_owner = Some ''c1'', nt_check_status = Down, nt_channel = ''ch1'',
      nt_created = t, nt_error = []\<rparr>"

definition example_channel :: channel where
  "example_channel =
     \<lparr>ch_code = ''ch1'', ch_kind = ''email'', ch_value = ''a@example.org'',
      ch_disabled = None, ch_last_notify = None, ch_last_error = [], ch_checks = [''c1'']\<rparr>"

definition example_db :: db where
  "example_db =
     \<lparr>checks = [''c1'' \<mapsto> example_check], flips = [],
      pings = [example_ping 1 90 1000, example_ping 2 91 2000, example_ping 3 99 3000],
      ping_seq = 4,
      notifications = [example_notification 1 500, example_notification 2 2500],
      notification_seq = 3, channels = [example_channel], archive = [], statements = []\<rparr>"

definition example_settings :: settings where
  "example_settings = \<lparr>S3_BUCKET = None\<rparr>"

definition example_settings_s3 :: settings where
  "example_settings_s3 = \<lparr>S3_BUCKET = Some ''hc-pings''\<rparr>"

definition example_archive :: archive where
  "example_archive = [(''c1/yaj-90'', ''body 90''), (''c1/yai-91'', ''body 91'')]"

definition example_transports :: "bool \<Rightarrow> transports" where
  "example_transports perm =
     \<lparr>is_noop = (\<lambda>t c k. False),
      t_notify = (\<lambda>t c k n. Some \<lparr>message = ''refused'', permanent = perm\<rparr>)\<rparr>"

section \<open>Properties of the object keys\<close>

lemma char_of_less: "i < 256 \<Longrightarrow> j < 256 \<Longrightarrow> (char_of i < char_of j) = ((i::nat) < j)"
  by (simp add: less_char_def)

lemma char_of_eq: "i < 256 \<Longrightarrow> j < 256 \<Longrightarrow> (char_of i = char_of j) = ((i::nat) = j)"
  by (metis of_char_of mod_less)

lemma digits_small: "n < 10 \<Longrightarrow> digits n = [n]"
  by (subst digits.simps) simp

lemma digits_big: "\<not> n < 10 \<Longrightarrow> digits n = digits (n div 10) @ [n mod 10]"
  by (subst digits.simps) simp

lemma digits_nonempty: "digits n \<noteq> []"
  by (cases "n < 10") (simp_all add: digits_small digits_big)

lemma digits_lt10: "d \<in> set (digits n) \<Longrightarrow> d < 10"
proof (induction n arbitrary: d rule: digits.induct)
  case (1 n)
  show ?case
  proof (cases "n < 10")
    case True
    with 1(2) show ?thesis by (simp add: digits_small)
  next
    case False
    from 1(2) have "d \<in> set (digits (n div 10)) \<or> d = n mod 10"
      unfolding digits_big [OF False] by auto
    then show ?thesis using 1(1) [OF False] by auto
  qed
qed

lemma length_digits_le: "0 < k \<Longrightarrow> (length (digits n) \<le> k) = (n < 10 ^ k)"
proof (induction n arbitrary: k rule: digits.induct)
  case (1 n)
  show ?case
  proof (cases "n < 10")
    case True
    have "(10::nat) ^ 1 \<le> 10 ^ k" using 1(2) by (intro power_increasing) simp_all
    with True have "n < 10 ^ k" by simp
    with True 1(2) show ?thesis by (simp add: digits_small)
  next
    case False
    note big = digits_big [OF False]
    show ?thesis
    proof (cases "k = 1")
      case True
      have "length (digits (n div 10)) \<ge> 1"
        using digits_nonempty [of "n div 10"] by (cases "digits (n div 10)") simp_all
      with True False show ?thesis by (simp add: big digits_nonempty)
    next
      case k: False
      with 1(2) obtain j where j: "k = Suc j" "0 < j" by (cases k) auto
      have "(length (digits (n div 10)) \<le> j) = (n div 10 < 10 ^ j)"
        using 1(1) [OF False j(2)] .
      moreover have "(n div 10 < 10 ^ j) = (n < 10 ^ Suc j)"
        by (simp add: div_less_iff_less_mult mult.commute)
      ultimately show ?thesis by (simp add: big j)
    qed
  qed
qed

lemma length_digits_mono: "a \<le> b \<Longrightarrow> length (digits a) \<le> length (digits b)"
proof -
  assume ab: "a \<le> b"
  have pos: "0 < length (digits b)" using digits_nonempty [of b] by simp
  have "b < 10 ^ length (digits b)" using length_digits_le [OF pos, of b] by simp
  with ab have "a < 10 ^ length (digits b)" by simp
  then show ?thesis using length_digits_le [OF pos, of a] by simp
qed

lemma append_less_same_length:
  "length xs = length ys \<Longrightarrow> (xs @ u < ys @ v) = (xs < ys \<or> (xs = ys \<and> u < v))"
  for xs ys :: "'a::linorder list"
  by (induction xs ys rule: list_induct2) auto

lemma lex_pair_nat:
  "ra < 10 \<Longrightarrow> rb < 10 \<Longrightarrow>
   ((10::nat) * qa + ra < 10 * qb + rb) = (qa < qb \<or> (qa = qb \<and> ra < rb))"
  by auto

lemma div_mod_less_10:
  "((a::nat) < b) = (a div 10 < b div 10 \<or> (a div 10 = b div 10 \<and> a mod 10 < b mod 10))"
  using lex_pair_nat [of "a mod 10" "b mod 10" "a div 10" "b div 10"] by simp

lemma digits_inj: "digits a = digits b \<Longrightarrow> a = b"
proof (induction a arbitrary: b rule: digits.induct)
  case (1 a)
  show ?case
  proof (cases "a < 10")
    case True
    then have "length (digits b) \<le> 1" using 1(2) [symmetric] by (simp add: digits_small)
    then have "b < 10" using length_digits_le [of 1 b] by simp
    with True 1(2) show ?thesis by (simp add: digits_small)
  next
    case False
    note biga = digits_big [OF False]
    have "\<not> b < 10"
    proof
      assume "b < 10"
      then have "length (digits b) = 1" by (simp add: digits_small)
      with 1(2) have "length (digits a) \<le> 1" by simp
      then have "a < 10" using length_digits_le [of 1 a] by simp
      with False show False by simp
    qed
    note bigb = digits_big [OF this]
    from 1(2) have "digits (a div 10) = digits (b div 10)" and m: "a mod 10 = b mod 10"
      by (simp_all add: biga bigb)
    then have "a div 10 = b div 10" using 1(1) [OF False] by simp
    with m show ?thesis by (metis div_mult_mod_eq)
  qed
qed

lemma digits_less:
  "length (digits a) = length (digits b) \<Longrightarrow> (digits a < digits b) = (a < b)"
proof (induction a arbitrary: b rule: digits.induct)
  case (1 a)
  show ?case
  proof (cases "a < 10")
    case True
    then have "length (digits b) \<le> 1" using 1(2) by (simp add: digits_small)
    then have "b < 10" using length_digits_le [of 1 b] by simp
    with True show ?thesis by (simp add: digits_small)
  next
    case False
    note biga = digits_big [OF False]
    have "\<not> b < 10"
    proof
      assume "b < 10"
      then have "length (digits b) = 1" by (simp add: digits_small)
      with 1(2) have "length (digits a) \<le> 1" by simp
      then have "a < 10" using length_digits_le [of 1 a] by simp
      with False show False by simp
    qed
    note bigb = digits_big [OF this]
    from 1(2) have len: "length (digits (a div 10)) = length (digits (b div 10))"
      by (simp add: biga bigb)
    have ih: "(digits (a div 10) < digits (b div 10)) = (a div 10 < b div 10)"
      using 1(1) [OF False len] .
    have inj: "(digits (a div 10) = digits (b div 10)) = (a div 10 = b div 10)"
      using digits_inj by auto
    show ?thesis
      unfolding biga bigb append_less_same_length [OF len] ih inj
      using div_mod_less_10 [of a b] by simp
  qed
qed


lemma py_int_digit_char: "d < 10 \<Longrightarrow> py_int (digit_char d) = Inr (int d)"
  by (simp add: py_int_def digit_char_def less_eq_char_def)

lemma inverted_digits:
  "\<forall>d\<in>set ds. d < 10 \<Longrightarrow>
   inverted (map digit_char ds) = Inr (map (\<lambda>d. char_of (106 - d)) ds)"
proof (induction ds)
  case Nil
  show ?case by simp
next
  case (Cons d ds)
  then have d: "d < 10" and rest: "\<forall>d\<in>set ds. d < 10" by simp_all
  have c: "py_chr (ASCII_J - int d) = Inr (char_of (106 - d))"
    using d by (simp add: py_chr_def ASCII_J_def nat_diff_distrib')
  show ?case using Cons.IH [OF rest] by (simp add: py_int_digit_char [OF d] c)
qed

lemma enc_nat:
  "length (digits n) \<le> 123 \<Longrightarrow>
   enc (int n) = Inr (char_of (123 - length (digits n)) #
                      map (\<lambda>d. char_of (106 - d)) (digits n) @ ''-'' @
                      map digit_char (digits n))"
proof -
  assume len: "length (digits n) \<le> 123"
  have s: "py_str (int n) = map digit_char (digits n)" by (simp add: py_str_def)
  have c: "py_chr (ASCII_Z - int (length (digits n)) + 1) = Inr (char_of (123 - length (digits n)))"
    using len by (simp add: py_chr_def ASCII_Z_def nat_diff_distrib')
  have i: "inverted (map digit_char (digits n)) = Inr (map (\<lambda>d. char_of (106 - d)) (digits n))"
    by (rule inverted_digits) (simp add: digits_lt10)
  show ?thesis by (simp add: enc_def s c i)
qed

lemma enc_too_long: "0 \<le> n \<Longrightarrow> \<not> n < 10 ^ 123 \<Longrightarrow> enc n = Inl ValueError"
proof -
  assume n: "0 \<le> n" and big: "\<not> n < 10 ^ 123"
  have "\<not> nat n < 10 ^ 123" using n big by (simp add: nat_less_iff)
  then have "\<not> length (digits (nat n)) \<le> 123"
    using length_digits_le [of 123 "nat n"] by simp
  then show ?thesis using n by (simp add: enc_def py_str_def py_chr_def ASCII_Z_def)
qed


lemma map_inverted_less:
  "length xs = length ys \<Longrightarrow> \<forall>d\<in>set xs. d < 10 \<Longrightarrow> \<forall>d\<in>set ys. d < 10 \<Longrightarrow>
   (map (\<lambda>d. char_of (106 - d)) xs < map (\<lambda>d. char_of (106 - d)) ys) = (ys < xs) \<and>
   (map (\<lambda>d. char_of (106 - d)) xs = map (\<lambda>d. char_of (106 - d :: nat)) ys) = (xs = ys)"
proof (induction xs ys rule: list_induct2)
  case Nil
  show ?case by simp
next
  case (Cons x xs y ys)
  then have x: "x < 10" and y: "y < 10" by simp_all
  have lt: "(char_of (106 - x) < char_of (106 - y)) = (y < x)"
    using x y by (subst char_of_less) auto
  have eq: "(char_of (106 - x) = char_of (106 - y)) = (x = y)"
    using x y by (subst char_of_eq) auto
  from Cons have ih:
    "(map (\<lambda>d. char_of (106 - d)) xs < map (\<lambda>d. char_of (106 - d)) ys) = (ys < xs)"
    "(map (\<lambda>d. char_of (106 - d)) xs = map (\<lambda>d. char_of (106 - d)) ys) = (xs = ys)"
    by simp_all
  show ?case using x y by (auto simp: lt eq ih)
qed

lemma enc_compare:
  assumes a: "a < 10 ^ 123" and b: "b < 10 ^ 123"
  shows "\<exists>ka kb. enc (int a) = Inr ka \<and> enc (int b) = Inr kb \<and>
           (ka < kb) = (b < a) \<and> (ka = kb) = (a = b)"
proof -
  let ?la = "length (digits a)" and ?lb = "length (digits b)"
  let ?inv = "\<lambda>d::nat. char_of (106 - d) :: char"
  let ?ka = "char_of (123 - ?la) # map ?inv (digits a) @ ''-'' @ map digit_char (digits a)"
  let ?kb = "char_of (123 - ?lb) # map ?inv (digits b) @ ''-'' @ map digit_char (digits b)"
  have la: "?la \<le> 123" using a length_digits_le [of 123 a] by simp
  have lb: "?lb \<le> 123" using b length_digits_le [of 123 b] by simp
  have ea: "enc (int a) = Inr ?ka" by (rule enc_nat [OF la])
  have eb: "enc (int b) = Inr ?kb" by (rule enc_nat [OF lb])
  have clt: "(char_of (123 - ?la) < (char_of (123 - ?lb) :: char)) = (?lb < ?la)"
    using la lb by (subst char_of_less) auto
  have ceq: "(char_of (123 - ?la) = (char_of (123 - ?lb) :: char)) = (?la = ?lb)"
    using la lb by (subst char_of_eq) auto
  have cmp: "(?ka < ?kb) = (b < a) \<and> (?ka = ?kb) = (a = b)"
  proof (cases "?la = ?lb")
    case True
    have m: "(map ?inv (digits a) < map ?inv (digits b)) = (digits b < digits a)"
            "(map ?inv (digits a) = map ?inv (digits b)) = (digits a = digits b)"
      using map_inverted_less [OF True] digits_lt10 by blast+
    have dl: "(digits b < digits a) = (b < a)" using digits_less [of b a] True by simp
    have de: "(digits a = digits b) = (a = b)" using digits_inj by auto
    have len: "length (map ?inv (digits a)) = length (map ?inv (digits b))"
      using True by simp
    have lt: "(?ka < ?kb) = (b < a)"
      using True la lb by (auto simp: append_less_same_length [OF len] m dl de)
    have eq: "(?ka = ?kb) = (a = b)"
      using True la lb by (auto simp: m de)
    from lt eq show ?thesis by simp
  next
    case False
    have ne: "a \<noteq> b" using False by auto
    have "(?lb < ?la) = (b < a)"
    proof
      assume "?lb < ?la"
      then show "b < a" using length_digits_mono [of a b] by (cases "a \<le> b") auto
    next
      assume "b < a"
      then have "?lb \<le> ?la" using length_digits_mono [of b a] by simp
      with False show "?lb < ?la" by simp
    qed
    then have lt: "(?ka < ?kb) = (b < a)" using False la lb by (auto simp: clt ceq)
    have eq: "(?ka = ?kb) = (a = b)" using False ne la lb by (auto simp: ceq)
    from lt eq show ?thesis by simp
  qed
  show ?thesis using ea eb cmp by blast
qed

lemma enc_compare_int:
  assumes "0 \<le> a" and "a < 10 ^ 123" and "0 \<le> b" and "b < 10 ^ 123"
  shows "\<exists>ka kb. enc a = Inr ka \<and> enc b = Inr kb \<and>
           (ka < kb) = (b < a) \<and> (ka = kb) = (a = b)"
proof -
  have a: "nat a < 10 ^ 123" using assms(1,2) by (simp add: nat_less_iff)
  have b: "nat b < 10 ^ 123" using assms(3,4) by (simp add: nat_less_iff)
  have "(nat b < nat a) = (b < a)" and "(nat a = nat b) = (a = b)"
    using assms(1,3) by auto
  then show ?thesis using enc_compare [OF a b] assms(1,3) by simp
qed

text \<open>
  C2 (as amended). For all integers \<open>a\<close> and \<open>b\<close> from 0 up to 123 decimal digits
  (below \<open>10 ^ 123\<close>), \<open>enc\<close> returns a key for each, the keys are equal only when
  \<open>a = b\<close>, and the key of \<open>a\<close> is lexicographically less than the key of \<open>b\<close>
  if and only if \<open>a > b\<close>.
\<close>

theorem enc_order_reversing:
  assumes "0 \<le> a" and "a < 10 ^ 123" and "0 \<le> b" and "b < 10 ^ 123"
  shows "\<exists>ka kb. enc a = Inr ka \<and> enc b = Inr kb \<and>
           (ka < kb) = (b < a) \<and> (ka = kb) = (a = b)"
  using assms by (rule enc_compare_int)

theorem enc_order_reversing_witness:
  "enc 9 = Inr ''za-9'' \<and> enc 10 = Inr ''yij-10'' \<and>
   (\<exists>ka kb. enc 9 = Inr ka \<and> enc 10 = Inr kb \<and>
      (ka < kb) = ((10::int) < 9) \<and> (ka = kb) = ((9::int) = 10))"
proof -
  have "enc 9 = Inr ''za-9''" by code_simp
  moreover have "enc 10 = Inr ''yij-10''" by code_simp
  moreover have "\<exists>ka kb. enc 9 = Inr ka \<and> enc 10 = Inr kb \<and>
      (ka < kb) = ((10::int) < 9) \<and> (ka = kb) = ((9::int) = 10)"
    using enc_order_reversing [of 9 10] by simp
  ultimately show ?thesis by simp
qed

text \<open>
  C2 as stated fails: at the non-negative integer \<open>10 ^ 123\<close>, which has 124 digits,
  \<open>chr(ASCII_Z - len(s) + 1)\<close> is \<open>chr(-1)\<close> and \<open>enc\<close> raises \<open>ValueError\<close>; there is
  no key to compare.
\<close>

theorem enc_order_counterexample: "enc (10 ^ 123) = Inl ValueError"
  by (rule enc_too_long) simp_all


section \<open>Properties of the key listing\<close>

lemma enc_negative: "n < 0 \<Longrightarrow> \<exists>e. enc n = Inl e"
  by (auto simp: enc_def py_str_def py_int_def Let_def less_eq_char_def split: sum.splits)

lemma in_list_objects:
  "(k \<in> set (list_objects keys prefix sa)) = (k \<in> set keys \<and> startswith k prefix \<and> sa < k)"
  by (auto simp: list_objects_def)

lemma sorted_list_objects: "sorted (list_objects keys prefix sa)"
  by (simp add: list_objects_def sorted_wrt_filter)

lemma prefix_less: "(p @ x < p @ y) = (x < y)" for p :: "'a::linorder list"
  by (induction p) simp_all

lemma startswith_append: "startswith (p @ x) p"
  by (simp add: startswith_def)

text \<open>
  C3 (as amended). For every threshold \<open>T\<close> and every \<open>n\<close> (both from 0 up to 123
  digits), the sorted listing of the keys under a prefix that starts after the key of
  \<open>T\<close> holds the key of \<open>n\<close> exactly when that key is stored and \<open>n < T\<close>.
\<close>

theorem list_after_enc:
  assumes "0 \<le> T" and "T < 10 ^ 123" and "0 \<le> n" and "n < 10 ^ 123"
  shows "\<exists>kT k. enc T = Inr kT \<and> enc n = Inr k \<and>
           (prefix @ k \<in> set (list_objects keys prefix (prefix @ kT))) =
             (prefix @ k \<in> set keys \<and> n < T) \<and>
           sorted (list_objects keys prefix (prefix @ kT))"
proof -
  from enc_compare_int [OF assms] obtain kT k where
    e: "enc T = Inr kT" "enc n = Inr k" and lt: "(kT < k) = (n < T)"
    by blast
  have "(prefix @ k \<in> set (list_objects keys prefix (prefix @ kT))) =
             (prefix @ k \<in> set keys \<and> n < T)"
    by (simp add: in_list_objects startswith_append prefix_less lt)
  then show ?thesis using e sorted_list_objects by blast
qed

lemma ex_enc: "enc 4 = Inr ''zf-4''" "enc 5 = Inr ''ze-5''" "enc 6 = Inr ''zd-6''"
  by code_simp+

text \<open>An instance: after \<open>enc(5)\<close> the listing of the keys of 4, 5 and 6 has the key of 4.\<close>

theorem list_after_enc_witness:
  "enc 5 = Inr ''ze-5'' \<and> enc 4 = Inr ''zf-4'' \<and>
   ''c1/zf-4'' \<in> set (list_objects [''c1/zf-4'', ''c1/ze-5'', ''c1/zd-6''] ''c1/'' ''c1/ze-5'')"
proof -
  from list_after_enc [of 5 4 "''c1/''" "[''c1/zf-4'', ''c1/ze-5'', ''c1/zd-6'']"]
  obtain kT k where e: "enc 5 = Inr kT" "enc 4 = Inr k"
    and l: "(''c1/'' @ k \<in> set (list_objects [''c1/zf-4'', ''c1/ze-5'', ''c1/zd-6''] ''c1/''
               (''c1/'' @ kT))) =
            (''c1/'' @ k \<in> set [''c1/zf-4'', ''c1/ze-5'', ''c1/zd-6''] \<and> (4::int) < 5)"
    by auto
  from e have k: "kT = ''ze-5''" "k = ''zf-4''" by (simp_all add: ex_enc)
  from l show ?thesis unfolding k by (simp add: ex_enc)
qed

text \<open>
  C3 as stated fails: the listing after \<open>enc(5)\<close> of the keys of 4, 5 and 6 is the key of 4
  alone; the key of 5 is not strictly after itself, although \<open>5 <= 5\<close>.
\<close>

theorem list_after_enc_counterexample:
  "enc 5 = Inr ''ze-5'' \<and> list_objects [''zf-4'', ''ze-5'', ''zd-6''] [] ''ze-5'' = [''zf-4'']"
  by code_simp

section \<open>Properties of the reported status\<close>

text \<open>
  C5. For every check that has a \<open>last_start\<close> with \<open>now >= last_start + grace\<close>,
  \<open>get_status\<close> returns \<open>down\<close>: whatever the stored status (also \<open>new\<close>, \<open>paused\<close>),
  the kind, the schedule and \<open>with_started\<close>, and before any other rule is looked at.
\<close>

theorem get_status_down_first:
  "last_start self = Some ls \<Longrightarrow> frozen_now \<ge> ls + grace self \<Longrightarrow>
   get_status cron frozen_now self with_started = Inr (Stored Down)"
  by (simp add: get_status_def)

text \<open>An instance: a paused check whose start is older than its grace time.\<close>

theorem get_status_down_first_witness:
  "last_start (example_check\<lparr>last_start := Some 10, status := Paused\<rparr>) = Some 10 \<and>
   (30000010::int) \<ge> 10 + grace (example_check\<lparr>last_start := Some 10, status := Paused\<rparr>) \<and>
   get_status example_cron 30000010 (example_check\<lparr>last_start := Some 10, status := Paused\<rparr>) True
     = Inr (Stored Down)"
  using get_status_down_first [of "example_check\<lparr>last_start := Some 10, status := Paused\<rparr>" 10
      30000010 example_cron True]
  by (simp add: example_check_def)

section \<open>Properties of ping ingestion\<close>

lemma prune_unchanged:
  "flips (prune st l self d) = flips d"
  "checks (prune st l self d) = checks d"
  "channels (prune st l self d) = channels d"
  by (simp_all add: prune_def Let_def split: sum.splits)

lemma prune_statements:
  "\<exists>rest. statements (prune st l self d) = statements d @ rest"
  by (simp add: prune_def Let_def split: sum.splits)

lemma check_save_Inr:
  "check_save s d = Inr (s', d') \<Longrightarrow>
   (\<exists>row. checks d (code s) = Some row \<and> s' = s\<lparr>n_pings := n_pings row + 1\<rparr>) \<and>
   d' = d\<lparr>checks := (checks d)(code s := Some s'),
          statements := statements d @ [Update_check s']\<rparr>"
  by (auto simp: check_save_def Let_def split: option.splits)

lemma ping_row_Inr:
  "ping_row st now self d ra sc me ua body action ex = Inr (p, d') \<Longrightarrow>
   flips d' = flips d \<and> statements d' = statements d \<and> pings d' = pings d \<and>
   checks d' = checks d \<and> notifications d' = notifications d \<and> ping_seq d' = ping_seq d \<and>
   p_n p = Some (n_pings self) \<and> p_owner p = code self \<and> p_created p = now \<and>
   p_id p = ping_seq d"
  by (auto simp: ping_row_def Let_def split: if_splits sum.splits)

lemma ping_update_flips:
  "flips (snd (ping_update now self d action)) =
     (if action \<in> {Success, Fail} \<and> status self \<noteq> (if action = Fail then Down else Up)
      then flips d @ [\<lparr>f_owner = code self, f_created = now, f_processed = None,
                        f_old_status = status self,
                        f_new_status = (if action = Fail then Down else Up)\<rparr>]
      else flips d)"
  by (cases action) (auto simp: ping_update_def Let_def flip_save_def split: option.splits)

lemma ping_update_statements:
  "statements (snd (ping_update now self d action)) =
     (if action \<in> {Success, Fail} \<and> status self \<noteq> (if action = Fail then Down else Up)
      then statements d @ [Insert_flip \<lparr>f_owner = code self, f_created = now, f_processed = None,
                        f_old_status = status self,
                        f_new_status = (if action = Fail then Down else Up)\<rparr>]
      else statements d)"
  by (cases action) (auto simp: ping_update_def Let_def flip_save_def split: option.splits)

lemma ping_update_checks:
  "checks (snd (ping_update now self d action)) = checks d"
  by (cases action) (auto simp: ping_update_def Let_def flip_save_def split: option.splits)

lemma ping_update_self:
  "code (fst (ping_update now self d action)) = code self"
  "action \<in> {Success, Fail} \<Longrightarrow>
     status (fst (ping_update now self d action)) = (if action = Fail then Down else Up) \<and>
     last_ping (fst (ping_update now self d action)) = Some now"
  "action \<in> {Start, Ign} \<Longrightarrow> status (fst (ping_update now self d action)) = status self"
  by (cases action; auto simp: ping_update_def Let_def flip_save_def split: option.splits)+

lemma ping_flips:
  "flips (snd (ping st l cron now self d ra sc me ua body action ex)) =
   flips (snd (ping_update now self d (effective_action self action)))"
  by (auto simp: ping_def Let_def prune_unchanged ping_save_def
      split: sum.splits prod.splits option.splits dest!: check_save_Inr ping_row_Inr)


lemma ping_Inr:
  assumes "ping st l cron now self d ra sc me ua body action ex = (Inr self', d')"
  shows "\<exists>aa row p d3.
     going_down_after cron (fst (ping_update now self d (effective_action self action))) = Inr aa \<and>
     checks d (code self) = Some row \<and>
     self' = (fst (ping_update now self d (effective_action self action)))
               \<lparr>alert_after := aa,
                has_confirmation_link := contains ''confirm'' (map lower_char body),
                n_pings := n_pings row + 1\<rparr> \<and>
     ping_row st now self'
        ((snd (ping_update now self d (effective_action self action)))
           \<lparr>checks := (checks d)(code self := Some self'),
            statements := statements (snd (ping_update now self d (effective_action self action)))
                            @ [Update_check self']\<rparr>)
        ra sc me ua body (effective_action self action) ex = Inr (p, d3) \<and>
     d' = (if n_pings self' mod 100 = 0 then prune st l self' (ping_save p d3)
           else ping_save p d3)"
proof -
  let ?a = "effective_action self action"
  obtain self1 d1 where u: "ping_update now self d ?a = (self1, d1)" by (cases "ping_update now self d ?a")
  have c1: "code self1 = code self" using ping_update_self(1) [of now self d ?a] u by simp
  have k1: "checks d1 = checks d" using ping_update_checks [of now self d ?a] u by simp
  from assms u obtain aa where aa: "going_down_after cron self1 = Inr aa"
    by (auto simp: ping_def Let_def split: sum.splits)
  let ?s2 = "self1\<lparr>alert_after := aa,
                has_confirmation_link := contains ''confirm'' (map lower_char body)\<rparr>"
  from assms u aa obtain self3 d2 where cs: "check_save ?s2 d1 = Inr (self3, d2)"
    by (auto simp: ping_def Let_def split: sum.splits)
  from assms u aa cs obtain p d3 where
    pr: "ping_row st now self3 d2 ra sc me ua body ?a ex = Inr (p, d3)"
    by (auto simp: ping_def Let_def split: sum.splits)
  from assms u aa cs pr have res: "self' = self3"
    "d' = (if n_pings self3 mod 100 = 0 then prune st l self3 (ping_save p d3)
           else ping_save p d3)"
    by (auto simp: ping_def Let_def)
  from check_save_Inr [OF cs] obtain row where
    row: "checks d1 (code ?s2) = Some row" "self3 = ?s2\<lparr>n_pings := n_pings row + 1\<rparr>"
    and d2: "d2 = d1\<lparr>checks := (checks d1)(code ?s2 := Some self3),
                    statements := statements d1 @ [Update_check self3]\<rparr>"
    by blast
  show ?thesis
    using aa row d2 pr res u c1 k1 by (intro exI [of _ aa] exI [of _ row] exI [of _ p] exI [of _ d3]) simp
qed


lemma ping_save_fields:
  "checks (ping_save p d) = checks d" "flips (ping_save p d) = flips d"
  "statements (ping_save p d) = statements d @ [Insert_ping p]"
  "pings (ping_save p d) = pings d @ [p]"
  "notifications (ping_save p d) = notifications d"
  "archive (ping_save p d) = archive d"
  by (simp_all add: ping_save_def)


lemma ex_ping_fst:
  "fst (ping example_settings 10 example_cron 5000 example_check example_db
      ''10.0.0.1'' ''http'' ''GET'' ''curl'' ''hello'' Fail None) =
   Inr (example_check\<lparr>last_ping := Some 5000, last_duration := None, status := Down,
          alert_after := None, has_confirmation_link := False, n_pings := 100\<rparr>)"
  by (simp add: ping_def effective_action_def ping_update_def going_down_after_def
      get_grace_start_def check_save_def ping_row_def example_check_def example_db_def
      example_settings_def s3_configured_def flip_save_def Let_def NEVER_def lower_char_def)

text \<open>
  C4. The flips after \<open>ping\<close> are those before plus, if and only if the action taken is
  a success or a fail and the new status differs from the status of the check, one flip:
  created at the time of the ping (which is \<open>last_ping\<close>), from the old to the new status.
  When \<open>ping\<close> returns on such an action, the flip is inserted before the row of the check
  is updated (with the new status), and a following success or fail that gives the same
  status adds no flip.
\<close>

theorem ping_flip_iff:
  "flips (snd (ping st l cron now self d ra sc me ua body action ex)) =
     (if effective_action self action \<in> {Success, Fail} \<and>
         status self \<noteq> (if effective_action self action = Fail then Down else Up)
      then flips d @ [\<lparr>f_owner = code self, f_created = now, f_processed = None,
                        f_old_status = status self,
                        f_new_status = (if effective_action self action = Fail then Down else Up)\<rparr>]
      else flips d) \<and>
   (\<forall>self' d'. ping st l cron now self d ra sc me ua body action ex = (Inr self', d') \<longrightarrow>
      effective_action self action \<in> {Success, Fail} \<longrightarrow>
      last_ping self' = Some now \<and>
      status self' = (if effective_action self action = Fail then Down else Up) \<and>
      checks d' (code self) = Some self' \<and>
      (\<exists>rest. statements d' =
         statements d @
         (if status self \<noteq> (if effective_action self action = Fail then Down else Up)
          then [Insert_flip \<lparr>f_owner = code self, f_created = now, f_processed = None,
                  f_old_status = status self,
                  f_new_status = (if effective_action self action = Fail then Down else Up)\<rparr>]
          else []) @ Update_check self' # rest) \<and>
      (\<forall>now2 ra2 sc2 me2 ua2 body2 action2 ex2.
         action2 \<in> {Success, Fail} \<longrightarrow> (if action2 = Fail then Down else Up) = status self' \<longrightarrow>
         flips (snd (ping st l cron now2 self' d' ra2 sc2 me2 ua2 body2 action2 ex2)) = flips d'))"
proof (intro conjI allI impI)
  let ?a = "effective_action self action"
  let ?ns = "if ?a = Fail then Down else Up"
  show "flips (snd (ping st l cron now self d ra sc me ua body action ex)) =
     (if ?a \<in> {Success, Fail} \<and> status self \<noteq> ?ns
      then flips d @ [\<lparr>f_owner = code self, f_created = now, f_processed = None,
                        f_old_status = status self, f_new_status = ?ns\<rparr>]
      else flips d)"
    unfolding ping_flips ping_update_flips ..
next
  fix self' d'
  let ?a = "effective_action self action"
  let ?ns = "if ?a = Fail then Down else Up"
  let ?u = "ping_update now self d ?a"
  assume res: "ping st l cron now self d ra sc me ua body action ex = (Inr self', d')"
    and a: "?a \<in> {Success, Fail}"
  from ping_Inr [OF res] obtain aa row p d3 where
    k: "checks d (code self) = Some row" and
    s: "self' = (fst ?u)\<lparr>alert_after := aa,
                has_confirmation_link := contains ''confirm'' (map lower_char body),
                n_pings := n_pings row + 1\<rparr>"
    and pr: "ping_row st now self'
        ((snd ?u)\<lparr>checks := (checks d)(code self := Some self'),
            statements := statements (snd ?u) @ [Update_check self']\<rparr>)
        ra sc me ua body ?a ex = Inr (p, d3)"
    and d': "d' = (if n_pings self' mod 100 = 0 then prune st l self' (ping_save p d3)
           else ping_save p d3)"
    by blast
  note r = ping_row_Inr [OF pr]
  show lp: "last_ping self' = Some now" using s ping_update_self(2) [OF a, of now self d] by simp
  show st: "status self' = ?ns" using s ping_update_self(2) [OF a, of now self d] by simp
  show "checks d' (code self) = Some self'"
    using r d' by (simp add: prune_unchanged ping_save_fields)
  have d4: "statements (ping_save p d3) = statements (snd ?u) @ [Update_check self', Insert_ping p]"
    using r by (simp add: ping_save_fields)
  obtain rest0 where "statements d' = statements (ping_save p d3) @ rest0"
    using d' prune_statements [of st l self' "ping_save p d3"] by (cases "n_pings self' mod 100 = 0") auto
  then have "statements d' = statements (snd ?u) @ Update_check self' # (Insert_ping p # rest0)"
    using d4 by simp
  then show "\<exists>rest. statements d' =
         statements d @
         (if status self \<noteq> ?ns
          then [Insert_flip \<lparr>f_owner = code self, f_created = now, f_processed = None,
                  f_old_status = status self, f_new_status = ?ns\<rparr>]
          else []) @ Update_check self' # rest"
    using a by (auto simp: ping_update_statements)
  fix now2 ra2 sc2 me2 ua2 body2 action2 ex2
  assume a2: "action2 \<in> {Success, Fail}"
    and same: "(if action2 = Fail then Down else Up) = status self'"
  have "status self' \<noteq> Paused" using st by auto
  then have e2: "effective_action self' action2 = action2" by (simp add: effective_action_def)
  show "flips (snd (ping st l cron now2 self' d' ra2 sc2 me2 ua2 body2 action2 ex2)) = flips d'"
    unfolding ping_flips ping_update_flips e2 using same by simp
qed

text \<open>An instance: a check that is up receives a fail.\<close>

theorem ping_flip_iff_witness:
  "effective_action example_check Fail \<in> {Success, Fail} \<and>
   (\<exists>self' d'.
      ping example_settings 10 example_cron 5000 example_check example_db
        ''10.0.0.1'' ''http'' ''GET'' ''curl'' ''hello'' Fail None = (Inr self', d') \<and>
      flips d' = [\<lparr>f_owner = ''c1'', f_created = 5000, f_processed = None,
                    f_old_status = Up, f_new_status = Down\<rparr>] \<and>
      last_ping self' = Some 5000 \<and> status self' = Down \<and>
      (\<exists>rest. statements d' =
         Insert_flip \<lparr>f_owner = ''c1'', f_created = 5000, f_processed = None,
                       f_old_status = Up, f_new_status = Down\<rparr> # Update_check self' # rest))"
proof -
  let ?res = "ping example_settings 10 example_cron 5000 example_check example_db
        ''10.0.0.1'' ''http'' ''GET'' ''curl'' ''hello'' Fail None"
  have e: "effective_action example_check Fail = Fail"
    by (simp add: effective_action_def example_check_def)
  obtain self' d' where r: "?res = (Inr self', d')"
    using ex_ping_fst by (cases ?res) auto
  have f: "code example_check = ''c1''" "status example_check = Up"
    "flips example_db = []" "statements example_db = []"
    by (simp_all add: example_check_def example_db_def)
  note t = ping_flip_iff [of example_settings 10 example_cron 5000 example_check example_db
        "''10.0.0.1''" "''http''" "''GET''" "''curl''" "''hello''" Fail None]
  from t have 1: "flips d' = [\<lparr>f_owner = ''c1'', f_created = 5000, f_processed = None,
                    f_old_status = Up, f_new_status = Down\<rparr>]"
    by (simp add: r e f)
  from t r have 2: "last_ping self' = Some 5000 \<and> status self' = Down \<and>
      (\<exists>rest. statements d' =
         Insert_flip \<lparr>f_owner = ''c1'', f_created = 5000, f_processed = None,
                       f_old_status = Up, f_new_status = Down\<rparr> # Update_check self' # rest)"
    by (simp add: e f)
  show ?thesis using e r 1 2 by simp
qed

section \<open>Properties of alert dispatch\<close>

text \<open>
  C7. \<open>send_alerts\<close> sends nothing on a flip from \<open>new\<close> or \<open>paused\<close> to \<open>up\<close>: it
  yields no triple and leaves the database as it is. On a flip whose new status is
  neither \<open>up\<close> nor \<open>down\<close> it raises an exception, and has sent nothing.
\<close>

theorem send_alerts_guards:
  "(f_new_status self = Up \<and> f_old_status self \<in> {New, Paused} \<longrightarrow>
      send_alerts tr now self d = (Inr [], d)) \<and>
   (f_new_status self \<notin> {Up, Down} \<longrightarrow> (\<exists>e. send_alerts tr now self d = (Inl e, d)))"
  by (auto simp: send_alerts_def)

text \<open>Instances: a flip from paused to up, and a flip to new.\<close>

theorem send_alerts_guards_witness:
  "send_alerts (example_transports True) 0 \<lparr>f_owner = ''c1'', f_created = 0, f_processed = None,
                     f_old_status = Paused, f_new_status = Up\<rparr> example_db = (Inr [], example_db) \<and>
   (\<exists>e. send_alerts (example_transports True) 0 \<lparr>f_owner = ''c1'', f_created = 0, f_processed = None,
                     f_old_status = Up, f_new_status = New\<rparr> example_db = (Inl e, example_db))"
  using send_alerts_guards [of "\<lparr>f_owner = ''c1'', f_created = 0, f_processed = None,
                     f_old_status = Paused, f_new_status = Up\<rparr>" "example_transports True" 0 example_db]
    send_alerts_guards [of "\<lparr>f_owner = ''c1'', f_created = 0, f_processed = None,
                     f_old_status = Up, f_new_status = New\<rparr>" "example_transports True" 0 example_db]
  by simp

text \<open>
  C8. When the transport raises \<open>TransportError\<close> in \<open>notify\<close> (the channel has a
  transport, which is not a no-op for the check, and the id of the new notification is
  unused): \<open>notify\<close> returns the message; the notification is stored with the message
  as its error; each row of the channel gets \<open>last_notify\<close>, \<open>last_error\<close> and
  \<open>disabled\<close> and keeps its other fields, \<open>disabled\<close> being true after a permanent
  failure and the channel's own value after a transient one; and the statements sent
  are the insert and two updates of named fields.
\<close>

theorem notify_failure:
  assumes "transport self = Inr t" and "\<not> is_noop tr t self chk"
    and "t_notify tr t self chk
           \<lparr>nt_id = notification_seq d,
            nt_owner = (if is_test then None else Some (code chk)),
            nt_check_status = status chk, nt_channel = ch_code self,
            nt_created = now, nt_error = ''Sending''\<rparr> = Some e"
    and "\<forall>x\<in>set (notifications d). nt_id x \<noteq> notification_seq d"
  shows "fst (notify tr now self chk is_test d) = Inr (message e) \<and>
    notifications (snd (notify tr now self chk is_test d)) =
      notifications d @
      [\<lparr>nt_id = notification_seq d,
        nt_owner = (if is_test then None else Some (code chk)),
        nt_check_status = status chk, nt_channel = ch_code self,
        nt_created = now, nt_error = message e\<rparr>] \<and>
    channels (snd (notify tr now self chk is_test d)) =
      map (\<lambda>c. if ch_code c = ch_code self
               then c\<lparr>ch_last_notify := Some now, ch_last_error := message e,
                      ch_disabled := (if permanent e then Some True else ch_disabled self)\<rparr>
               else c) (channels d) \<and>
    statements (snd (notify tr now self chk is_test d)) =
      statements d @
      [Insert_notification
         \<lparr>nt_id = notification_seq d,
          nt_owner = (if is_test then None else Some (code chk)),
          nt_check_status = status chk, nt_channel = ch_code self,
          nt_created = now, nt_error = ''Sending''\<rparr>,
       Update_notification (notification_seq d) (message e),
       Update_channel (ch_code self) (Some now) (message e)
         (if permanent e then Some True else ch_disabled self)]"
proof -
  have m: "map (\<lambda>x. if nt_id x = notification_seq d then x\<lparr>nt_error := message e\<rparr> else x)
             (notifications d) = notifications d"
    using assms(4) by (induction "notifications d") (auto simp: map_idI)
  show ?thesis
    using assms(1-3) by (simp add: notify_def Let_def m)
qed

text \<open>
  Instances: the same channel, with \<open>disabled\<close> null, after a permanent and after a
  transient failure.
\<close>

theorem notify_failure_witness:
  "channels (snd (notify (example_transports True) 7000 example_channel example_check False
      example_db)) =
     [example_channel\<lparr>ch_last_notify := Some 7000, ch_last_error := ''refused'',
        ch_disabled := Some True\<rparr>] \<and>
   channels (snd (notify (example_transports False) 7000 example_channel example_check False
      example_db)) =
     [example_channel\<lparr>ch_last_notify := Some 7000, ch_last_error := ''refused'',
        ch_disabled := None\<rparr>] \<and>
   fst (notify (example_transports False) 7000 example_channel example_check False example_db) =
     Inr ''refused''"
proof -
  have t: "transport example_channel = Inr Email"
    by (simp add: transport_def example_channel_def)
  have f: "\<forall>x\<in>set (notifications example_db). nt_id x \<noteq> notification_seq example_db"
    by (simp add: example_db_def example_notification_def)
  have c: "channels example_db = [example_channel]" "ch_disabled example_channel = None"
    by (simp_all add: example_db_def example_channel_def)
  have 1: "channels (snd (notify (example_transports True) 7000 example_channel example_check
      False example_db)) =
     [example_channel\<lparr>ch_last_notify := Some 7000, ch_last_error := ''refused'',
        ch_disabled := Some True\<rparr>]"
    using notify_failure [OF t _ _ f, of "example_transports True" example_check False 7000
        "\<lparr>message = ''refused'', permanent = True\<rparr>"]
    by (simp add: example_transports_def c)
  have 2: "channels (snd (notify (example_transports False) 7000 example_channel example_check
      False example_db)) =
     [example_channel\<lparr>ch_last_notify := Some 7000, ch_last_error := ''refused'',
        ch_disabled := None\<rparr>] \<and>
   fst (notify (example_transports False) 7000 example_channel example_check False example_db) =
     Inr ''refused''"
    using notify_failure [OF t _ _ f, of "example_transports False" example_check False 7000
        "\<lparr>message = ''refused'', permanent = False\<rparr>"]
    by (simp add: example_transports_def c)
  from 1 2 show ?thesis by simp
qed

section \<open>Properties of pruning\<close>

lemma earliest_Nil: "(earliest ps = Inl e) = (ps = [] \<and> e = DoesNotExist)"
  by (cases ps) (auto split: sum.splits)

text \<open>
  C10. When \<open>prune\<close> deletes every ping of the check, \<open>earliest\<close> raises
  \<open>DoesNotExist\<close>, which is swallowed: the notifications stay as they are, and the only
  statement sent is the deletion of the pings.
\<close>

theorem prune_keeps_notifications:
  assumes "\<forall>p\<in>set (pings d). p_owner p = code self \<longrightarrow> n_lte p (n_pings self - ping_log_limit)"
  shows "notifications (prune st ping_log_limit self d) = notifications d \<and>
         ping_set self (prune st ping_log_limit self d) = [] \<and>
         statements (prune st ping_log_limit self d) =
           statements d @ [Delete_pings (code self) (n_pings self - ping_log_limit)]"
proof -
  define d1 where
    "d1 = (if s3_configured st
           then d\<lparr>archive := remove_objects (code self) (n_pings self - ping_log_limit) (archive d)\<rparr>
           else d)"
  define d2 where
    "d2 = d1\<lparr>pings := filter (\<lambda>p. \<not> (p_owner p = code self \<and>
                                    n_lte p (n_pings self - ping_log_limit))) (pings d1),
             statements := statements d1 @
               [Delete_pings (code self) (n_pings self - ping_log_limit)]\<rparr>"
  have p: "prune st ping_log_limit self d =
             (case earliest (ping_set self d2) of
                Inl e \<Rightarrow> d2
              | Inr p \<Rightarrow>
                d2\<lparr>notifications :=
                      filter (\<lambda>x. \<not> (nt_owner x = Some (code self) \<and> nt_created x < p_created p))
                        (notifications d2),
                    statements := statements d2 @
                      [Delete_notifications (code self) (p_created p)]\<rparr>)"
    unfolding prune_def Let_def d2_def d1_def by (rule refl)
  have d1: "pings d1 = pings d" "notifications d1 = notifications d"
    "statements d1 = statements d"
    by (simp_all add: d1_def)
  have empty: "ping_set self d2 = []"
    using assms by (auto simp: ping_set_def d2_def d1 filter_empty_conv)
  then have "prune st ping_log_limit self d = d2" using p by simp
  then show ?thesis using empty by (simp add: d2_def d1)
qed

text \<open>An instance: the counter at 200 and a limit of 10, with pings 90, 91 and 99 stored.\<close>

theorem prune_keeps_notifications_witness:
  "notifications (prune example_settings 10 (example_check\<lparr>n_pings := 200\<rparr>) example_db) =
     [example_notification 1 500, example_notification 2 2500] \<and>
   ping_set (example_check\<lparr>n_pings := 200\<rparr>)
     (prune example_settings 10 (example_check\<lparr>n_pings := 200\<rparr>) example_db) = []"
proof -
  have h: "\<forall>p\<in>set (pings example_db).
      p_owner p = code (example_check\<lparr>n_pings := 200\<rparr>) \<longrightarrow>
      n_lte p (n_pings (example_check\<lparr>n_pings := 200\<rparr>) - 10)"
    by (simp add: example_db_def example_ping_def example_check_def n_lte_def)
  have n: "notifications example_db = [example_notification 1 500, example_notification 2 2500]"
    by (simp add: example_db_def)
  show ?thesis
    using h prune_keeps_notifications [OF h, of example_settings] n by simp
qed

lemma remove_objects_entry:
  assumes T: "T + 1 < 10 ^ 123" and n: "0 \<le> n" "n < 10 ^ 123" and k: "enc n = Inr k"
  shows "((c @ ''/'' @ k, data) \<in> set (remove_objects c T a)) =
         ((c @ ''/'' @ k, data) \<in> set a \<and> T < n)"
proof (cases "T + 1 < 0")
  case True
  then obtain e where "enc (T + 1) = Inl e" using enc_negative by blast
  then have "remove_objects c T a = a"
    by (simp add: remove_objects_def remove_objects_body_def Let_def)
  then show ?thesis using True n by auto
next
  case False
  then have T0: "0 \<le> T + 1" by simp
  from enc_compare_int [OF T0 T n] k obtain kT where
    e: "enc (T + 1) = Inr kT" and lt: "(kT < k) = (n < T + 1)"
    by auto
  have r: "remove_objects c T a =
      filter (\<lambda>(k', d). k' \<notin> set (list_objects (map fst a) (c @ ''/'') ((c @ ''/'') @ kT))) a"
    by (simp add: remove_objects_def remove_objects_body_def Let_def e)
  have l: "((c @ ''/'') @ k \<in> set (list_objects (map fst a) (c @ ''/'') ((c @ ''/'') @ kT))) =
           ((c @ ''/'') @ k \<in> set (map fst a) \<and> n < T + 1)"
    by (simp only: in_list_objects startswith_append prefix_less lt simp_thms)
  have "((c @ ''/'' @ k, data) \<in> set a) \<Longrightarrow> (c @ ''/'') @ k \<in> set (map fst a)"
    by force
  then show ?thesis
    unfolding r using l by auto
qed

lemma remove_objects_other:
  "\<not> startswith key (c @ ''/'') \<Longrightarrow>
   ((key, data) \<in> set (remove_objects c T a)) = ((key, data) \<in> set a)"
  by (auto simp: remove_objects_def remove_objects_body_def Let_def in_list_objects
      split: sum.splits)

lemma prune_pings:
  "pings (prune st l self d) =
   filter (\<lambda>p. \<not> (p_owner p = code self \<and> n_lte p (n_pings self - l))) (pings d)"
  by (simp add: prune_def Let_def split: sum.splits)

lemma prune_archive:
  "archive (prune st l self d) =
   (if s3_configured st then remove_objects (code self) (n_pings self - l) (archive d)
    else archive d)"
  by (simp add: prune_def Let_def split: sum.splits)

lemma prune_alt:
  "prune st l self d =
   (case earliest (filter (\<lambda>p. p_owner p = code self)
           (filter (\<lambda>p. \<not> (p_owner p = code self \<and> n_lte p (n_pings self - l))) (pings d))) of
      Inl e \<Rightarrow>
        d\<lparr>archive := (if s3_configured st
                       then remove_objects (code self) (n_pings self - l) (archive d)
                       else archive d),
          pings := filter (\<lambda>p. \<not> (p_owner p = code self \<and> n_lte p (n_pings self - l))) (pings d),
          statements := statements d @ [Delete_pings (code self) (n_pings self - l)]\<rparr>
    | Inr p \<Rightarrow>
        d\<lparr>archive := (if s3_configured st
                       then remove_objects (code self) (n_pings self - l) (archive d)
                       else archive d),
          pings := filter (\<lambda>p. \<not> (p_owner p = code self \<and> n_lte p (n_pings self - l))) (pings d),
          notifications :=
            filter (\<lambda>x. \<not> (nt_owner x = Some (code self) \<and> nt_created x < p_created p))
              (notifications d),
          statements := statements d @ [Delete_pings (code self) (n_pings self - l),
                                        Delete_notifications (code self) (p_created p)]\<rparr>)"
  by (cases "s3_configured st") (simp_all add: prune_def Let_def ping_set_def split: sum.splits)

lemma prune_ping_set:
  "ping_set self (prune st l self d) =
   filter (\<lambda>p. p_owner p = code self)
     (filter (\<lambda>p. \<not> (p_owner p = code self \<and> n_lte p (n_pings self - l))) (pings d))"
  by (simp add: ping_set_def prune_pings)

lemma prune_notifications:
  "earliest (ping_set self (prune st l self d)) = Inr p \<Longrightarrow>
   notifications (prune st l self d) =
   filter (\<lambda>x. \<not> (nt_owner x = Some (code self) \<and> nt_created x < p_created p))
     (notifications d)"
  unfolding prune_ping_set by (subst prune_alt) simp

lemma ping_update_pings: "pings (snd (ping_update now self d action)) = pings d"
  by (cases action) (auto simp: ping_update_def Let_def flip_save_def split: option.splits)

lemma ping_prune_trigger:
  assumes "ping st l cron now self d ra sc me ua body action ex = (Inr self', d')"
  shows "\<exists>row p d4. checks d (code self) = Some row \<and> n_pings self' = n_pings row + 1 \<and>
           code self' = code self \<and> p_n p = Some (n_pings self') \<and> pings d4 = pings d @ [p] \<and>
           d' = (if n_pings self' mod 100 = 0 then prune st l self' d4 else d4)"
proof -
  let ?u = "ping_update now self d (effective_action self action)"
  from ping_Inr [OF assms] obtain aa row p d3 where
    k: "checks d (code self) = Some row" and
    s: "self' = (fst ?u)\<lparr>alert_after := aa,
                has_confirmation_link := contains ''confirm'' (map lower_char body),
                n_pings := n_pings row + 1\<rparr>"
    and pr: "ping_row st now self'
        ((snd ?u)\<lparr>checks := (checks d)(code self := Some self'),
            statements := statements (snd ?u) @ [Update_check self']\<rparr>)
        ra sc me ua body (effective_action self action) ex = Inr (p, d3)"
    and d': "d' = (if n_pings self' mod 100 = 0 then prune st l self' (ping_save p d3)
           else ping_save p d3)"
    by blast
  note r = ping_row_Inr [OF pr]
  have 1: "n_pings self' = n_pings row + 1" using s by simp
  have 2: "code self' = code self" using s ping_update_self(1) [of now self d] by simp
  have 3: "pings (ping_save p d3) = pings d @ [p]"
    using r by (simp add: ping_save_fields ping_update_pings)
  show ?thesis using k 1 2 3 r d' by blast
qed

text \<open>
  C6. \<open>prune\<close> with \<open>T = n_pings - ping_log_limit\<close> keeps exactly the pings that are not
  pings of the check with \<open>n <= T\<close>; with the object store configured (and \<open>T + 1\<close> of at
  most 123 digits) it keeps exactly the archived bodies of the check with \<open>n > T\<close>; when
  a ping of the check remains, the notifications of the check created before the ping
  with the least id are deleted and the others kept. A \<open>ping\<close> that returns has stored
  the ping with the incremented counter as its \<open>n\<close>, and has then run \<open>prune\<close> if and
  only if that counter is divisible by 100.
\<close>

theorem prune_exact:
  "(\<forall>p. (p \<in> set (pings (prune st l self d))) =
         (p \<in> set (pings d) \<and>
          \<not> (p_owner p = code self \<and> (\<exists>n. p_n p = Some n \<and> n \<le> n_pings self - l)))) \<and>
   (s3_configured st \<longrightarrow> n_pings self - l + 1 < 10 ^ 123 \<longrightarrow>
      (\<forall>n k data. 0 \<le> n \<longrightarrow> n < 10 ^ 123 \<longrightarrow> enc n = Inr k \<longrightarrow>
         ((code self @ ''/'' @ k, data) \<in> set (archive (prune st l self d))) =
         ((code self @ ''/'' @ k, data) \<in> set (archive d) \<and> n_pings self - l < n))) \<and>
   (\<forall>p. earliest (ping_set self (prune st l self d)) = Inr p \<longrightarrow>
      notifications (prune st l self d) =
      filter (\<lambda>x. \<not> (nt_owner x = Some (code self) \<and> nt_created x < p_created p))
        (notifications d)) \<and>
   (\<forall>self' d'. ping st l cron now self0 d0 ra sc me ua body action ex = (Inr self', d') \<longrightarrow>
      (\<exists>row p d4. checks d0 (code self0) = Some row \<and> n_pings self' = n_pings row + 1 \<and>
           code self' = code self0 \<and> p_n p = Some (n_pings self') \<and>
           pings d4 = pings d0 @ [p] \<and>
           d' = (if n_pings self' mod 100 = 0 then prune st l self' d4 else d4)))"
proof (intro conjI allI impI)
  fix p
  show "(p \<in> set (pings (prune st l self d))) =
         (p \<in> set (pings d) \<and>
          \<not> (p_owner p = code self \<and> (\<exists>n. p_n p = Some n \<and> n \<le> n_pings self - l)))"
    by (auto simp: prune_pings n_lte_def split: option.splits)
next
  fix n k data
  assume a: "s3_configured st" "n_pings self - l + 1 < 10 ^ 123" "0 \<le> n" "n < 10 ^ 123"
    "enc n = Inr k"
  show "((code self @ ''/'' @ k, data) \<in> set (archive (prune st l self d))) =
         ((code self @ ''/'' @ k, data) \<in> set (archive d) \<and> n_pings self - l < n)"
    using a(1) remove_objects_entry [OF a(2) a(3) a(4) a(5), of "code self" data "archive d"]
    by (simp add: prune_archive)
next
  fix p
  assume "earliest (ping_set self (prune st l self d)) = Inr p"
  then show "notifications (prune st l self d) =
      filter (\<lambda>x. \<not> (nt_owner x = Some (code self) \<and> nt_created x < p_created p))
        (notifications d)"
    by (rule prune_notifications)
next
  fix self' d'
  assume "ping st l cron now self0 d0 ra sc me ua body action ex = (Inr self', d')"
  then show "\<exists>row p d4. checks d0 (code self0) = Some row \<and> n_pings self' = n_pings row + 1 \<and>
           code self' = code self0 \<and> p_n p = Some (n_pings self') \<and>
           pings d4 = pings d0 @ [p] \<and>
           d' = (if n_pings self' mod 100 = 0 then prune st l self' d4 else d4)"
    by (rule ping_prune_trigger)
qed

lemma ex_prune_archive:
  "archive (prune example_settings_s3 10 (example_check\<lparr>n_pings := 100\<rparr>)
      (example_db\<lparr>archive := example_archive\<rparr>)) = [(''c1/yai-91'', ''body 91'')]"
  by code_simp

lemma ex_prune_pings:
  "pings (prune example_settings_s3 10 (example_check\<lparr>n_pings := 100\<rparr>)
      (example_db\<lparr>archive := example_archive\<rparr>)) =
   [example_ping 2 91 2000, example_ping 3 99 3000]"
  by code_simp

lemma ex_prune_earliest:
  "earliest (ping_set (example_check\<lparr>n_pings := 100\<rparr>)
     (prune example_settings_s3 10 (example_check\<lparr>n_pings := 100\<rparr>)
      (example_db\<lparr>archive := example_archive\<rparr>))) = Inr (example_ping 2 91 2000)"
  by code_simp

text \<open>
  An instance: the counter at 100 and a limit of 10, so \<open>T = 90\<close>; pings 90, 91 and 99
  and the archived bodies of 90 and 91 are stored, and notifications from before and
  after ping 91.
\<close>

theorem prune_exact_witness:
  "archive (prune example_settings_s3 10 (example_check\<lparr>n_pings := 100\<rparr>)
      (example_db\<lparr>archive := example_archive\<rparr>)) = [(''c1/yai-91'', ''body 91'')] \<and>
   pings (prune example_settings_s3 10 (example_check\<lparr>n_pings := 100\<rparr>)
      (example_db\<lparr>archive := example_archive\<rparr>)) =
     [example_ping 2 91 2000, example_ping 3 99 3000] \<and>
   notifications (prune example_settings_s3 10 (example_check\<lparr>n_pings := 100\<rparr>)
      (example_db\<lparr>archive := example_archive\<rparr>)) = [example_notification 2 2500]"
proof -
  note t = prune_exact [of example_settings_s3 10 "example_check\<lparr>n_pings := 100\<rparr>"
      "example_db\<lparr>archive := example_archive\<rparr>"]
  from t have "\<forall>p. earliest (ping_set (example_check\<lparr>n_pings := 100\<rparr>)
        (prune example_settings_s3 10 (example_check\<lparr>n_pings := 100\<rparr>)
           (example_db\<lparr>archive := example_archive\<rparr>))) = Inr p \<longrightarrow>
      notifications (prune example_settings_s3 10 (example_check\<lparr>n_pings := 100\<rparr>)
           (example_db\<lparr>archive := example_archive\<rparr>)) =
      filter (\<lambda>x. \<not> (nt_owner x = Some (code (example_check\<lparr>n_pings := 100\<rparr>)) \<and>
                     nt_created x < p_created p))
        (notifications (example_db\<lparr>archive := example_archive\<rparr>))"
    by blast
  with ex_prune_earliest have
    "notifications (prune example_settings_s3 10 (example_check\<lparr>n_pings := 100\<rparr>)
           (example_db\<lparr>archive := example_archive\<rparr>)) =
      filter (\<lambda>x. \<not> (nt_owner x = Some (code (example_check\<lparr>n_pings := 100\<rparr>)) \<and>
                     nt_created x < p_created (example_ping 2 91 2000)))
        (notifications (example_db\<lparr>archive := example_archive\<rparr>))"
    by blast
  then have "notifications (prune example_settings_s3 10 (example_check\<lparr>n_pings := 100\<rparr>)
           (example_db\<lparr>archive := example_archive\<rparr>)) = [example_notification 2 2500]"
    by (simp add: example_db_def example_notification_def example_ping_def example_check_def)
  then show ?thesis using ex_prune_archive ex_prune_pings by simp
qed

end
